theory Spec2Isabelle
  imports Main "HOL-Library.Word"
begin

section \<open>JavaScript strings and values\<close>

text \<open>
  A JavaScript string is a sequence of UTF-16 code units; \<open>length\<close>, \<open>trim\<close> and the
  regular expressions of the source (none has the \<open>u\<close> flag) all work on code units.
  \<open>js\<close> writes an ASCII literal of the source as such a sequence.
\<close>

type_synonym jsstring = "16 word list"

definition js :: "string \<Rightarrow> jsstring" where
  "js s = map of_char s"

text \<open>
  The values a form field can hold before validation. A number is kept as the bit
  pattern of its double: the schema only looks at its type.
\<close>

datatype jsvalue =
    JUndefined
  | JNull
  | JBoolean bool
  | JNumber "64 word"
  | JString jsstring

text \<open>\<open>String.prototype.trim\<close>: WhiteSpace and LineTerminator code points of ECMAScript.\<close>

definition is_js_space :: "16 word \<Rightarrow> bool" where
  "is_js_space c \<longleftrightarrow>
     c = 0x0009 \<or> c = 0x000A \<or> c = 0x000B \<or> c = 0x000C \<or> c = 0x000D \<or>
     c = 0x0020 \<or> c = 0x00A0 \<or> c = 0x1680 \<or> (0x2000 \<le> c \<and> c \<le> 0x200A) \<or>
     c = 0x2028 \<or> c = 0x2029 \<or> c = 0x202F \<or> c = 0x205F \<or> c = 0x3000 \<or>
     c = 0xFEFF"

definition trim :: "jsstring \<Rightarrow> jsstring" where
  "trim s = rev (dropWhile is_js_space (rev (dropWhile is_js_space s)))"

text \<open>\<open>String.prototype.includes\<close>: the pattern occurs at some position.\<close>

primrec str_includes :: "jsstring \<Rightarrow> jsstring \<Rightarrow> bool" where
  "str_includes [] pat = (pat = [])"
| "str_includes (c # s) pat = (take (length pat) (c # s) = pat \<or> str_includes s pat)"

section \<open>src/lib/types.ts\<close>

record 'a UrlFields =
  url :: 'a
  customCode :: 'a

type_synonym UrlFormData = "jsstring UrlFields"

datatype ShortenData = ShortenData (data_shortUrl: jsstring)

record 'a ApiResponse =
  success :: bool
  data :: "'a option"
  resp_error :: "jsstring option"

subsection \<open>The schema\<close>

text \<open>
  An issue of the validation library: the field it is about, its kind, and the message
  the schema gives for it (\<open>None\<close>: the library's default message, for a value that is
  not a string).
\<close>

datatype zod_issue_code = invalid_type | too_big | invalid_string

datatype zod_issue =
  Issue (path: string) (code: zod_issue_code) (message: "string option")

text \<open>The character class \<open>[a-zA-Z0-9_-]\<close>.\<close>

definition is_code_char :: "16 word \<Rightarrow> bool" where
  "is_code_char c \<longleftrightarrow>
     (0x61 \<le> c \<and> c \<le> 0x7A) \<or> (0x41 \<le> c \<and> c \<le> 0x5A) \<or>
     (0x30 \<le> c \<and> c \<le> 0x39) \<or> c = 0x5F \<or> c = 0x2D"

text \<open>
  \<open>/^[a-zA-Z0-9_-]+$/.test(s)\<close>: anchored at the start, the greedy class takes the
  longest run of class characters, which must be non-empty and reach the end of input
  (no \<open>m\<close> flag: \<open>$\<close> is the end of the string only).
\<close>

definition customCode_regex :: "jsstring \<Rightarrow> bool" where
  "customCode_regex s \<longleftrightarrow>
     takeWhile is_code_char s \<noteq> [] \<and> dropWhile is_code_char s = []"

text \<open>
  \<open>z.string().url(msg)\<close>. The URL-syntax test is the validation library's; it is a
  parameter \<open>is_url\<close> here.
\<close>

definition url_field :: "(jsstring \<Rightarrow> bool) \<Rightarrow> jsvalue \<Rightarrow> zod_issue list + jsstring" where
  "url_field is_url v =
     (case v of
        JString s \<Rightarrow>
          (if is_url s then Inr s
           else Inl [Issue ''url'' invalid_string (Some ''Please enter a valid URL'')])
      | _ \<Rightarrow> Inl [Issue ''url'' invalid_type None])"

text \<open>
  \<open>z.string().max(255, msg).regex(re, msg)\<close>: a value that is not a string is one
  issue; on a string every check runs, in order, and each failure adds its issue.
\<close>

definition customCode_field :: "jsvalue \<Rightarrow> zod_issue list + jsstring" where
  "customCode_field v =
     (case v of
        JString s \<Rightarrow>
          (let issues =
             (if length s > 255
              then [Issue ''customCode'' too_big
                      (Some ''Custom code must be less than 255 characters'')]
              else []) @
             (if \<not> customCode_regex s
              then [Issue ''customCode'' invalid_string
                      (Some ''Custom code must be alphanumeric or hyphen'')]
              else [])
           in if issues = [] then Inr s else Inl issues)
      | _ \<Rightarrow> Inl [Issue ''customCode'' invalid_type None])"

definition issues_of :: "zod_issue list + 'a \<Rightarrow> zod_issue list" where
  "issues_of r = (case r of Inl issues \<Rightarrow> issues | Inr _ \<Rightarrow> [])"

text \<open>\<open>urlSchema.safeParse\<close>: both fields are parsed and their issues collected.\<close>

definition urlSchema :: "(jsstring \<Rightarrow> bool) \<Rightarrow> jsvalue UrlFields \<Rightarrow> zod_issue list + UrlFormData" where
  "urlSchema is_url inp =
     (case (url_field is_url (url inp), customCode_field (customCode inp)) of
        (Inr u, Inr c) \<Rightarrow> Inr \<lparr>url = u, customCode = c\<rparr>
      | (ru, rc) \<Rightarrow> Inl (issues_of ru @ issues_of rc))"

section \<open>src/components/urls/url-shortener-form.tsx\<close>

subsection \<open>Component state and collaborators\<close>

record form_state =
  shortUrl :: "jsstring option"
  shortCode :: "jsstring option"
  isLoading :: bool
  error :: "jsstring option"
  isQrCodeModalOpen :: bool

text \<open>Lines 29-33: the initial values of the five state variables.\<close>

definition initial_state :: form_state where
  "initial_state =
     \<lparr>shortUrl = None, shortCode = None, isLoading = False, error = None,
      isQrCodeModalOpen = False\<rparr>"

type_synonym FormData = "(string \<times> jsstring) list"

text \<open>An awaited call either throws (the promise rejects) or resolves to a value.\<close>

datatype 'a outcome = Throws | Resolves 'a

text \<open>
  What \<open>onSubmit\<close> reads from outside the component: the server action, the session
  and the current path.
\<close>

record env =
  shortenUrl :: "FormData \<Rightarrow> ShortenData ApiResponse outcome"
  session_user :: bool
  pathname :: jsstring

text \<open>The calls \<open>onSubmit\<close> makes to its collaborators, in order.\<close>

datatype effect = CallShortenUrl FormData | RouterRefresh | ConsoleError

subsection \<open>onSubmit\<close>

text \<open>
  \<open>shortUrl.match(/\/r\/([^/]+)$/)\<close>: the search tries each start position from the
  left. At a position the literal \<open>/r/\<close> must follow, then the greedy class \<open>[^/]+\<close>
  takes the longest slash-free run, which must be non-empty and end the input. The
  result is capture group 1.
\<close>

definition slash :: "16 word" where
  "slash = 0x2F"

definition match_here :: "jsstring \<Rightarrow> jsstring option" where
  "match_here s =
     (if take 3 s = js ''/r/''
      then (let rest = drop 3 s; run = takeWhile (\<lambda>c. c \<noteq> slash) rest
            in if run \<noteq> [] \<and> dropWhile (\<lambda>c. c \<noteq> slash) rest = [] then Some run else None)
      else None)"

fun shortCodeMatch :: "jsstring \<Rightarrow> jsstring option" where
  "shortCodeMatch [] = match_here []"
| "shortCodeMatch (c # s) =
     (case match_here (c # s) of Some g \<Rightarrow> Some g | None \<Rightarrow> shortCodeMatch s)"

text \<open>
  \<open>formData.append(name, value)\<close> takes its value as a \<open>USVString\<close>: the string is
  converted on the way in, every surrogate code unit that is not part of a pair (a high
  surrogate directly followed by a low one) being replaced by U+FFFD.
\<close>

definition is_high_surrogate :: "16 word \<Rightarrow> bool" where
  "is_high_surrogate c \<longleftrightarrow> 0xD800 \<le> c \<and> c \<le> 0xDBFF"

definition is_low_surrogate :: "16 word \<Rightarrow> bool" where
  "is_low_surrogate c \<longleftrightarrow> 0xDC00 \<le> c \<and> c \<le> 0xDFFF"

fun to_usv :: "jsstring \<Rightarrow> jsstring" where
  "to_usv [] = []"
| "to_usv [c] = (if is_high_surrogate c \<or> is_low_surrogate c then [0xFFFD] else [c])"
| "to_usv (c # d # s) =
     (if is_high_surrogate c
      then (if is_low_surrogate d then c # d # to_usv s else 0xFFFD # to_usv (d # s))
      else if is_low_surrogate c then 0xFFFD # to_usv (d # s)
      else c # to_usv (d # s))"

text \<open>
  The code unit at position \<open>i\<close> of \<open>s\<close> is an unpaired surrogate: a high surrogate
  with no low surrogate right after it, or a low surrogate with no high surrogate right
  before it. This is the reading of the conversion by position, to compare \<open>to_usv\<close>
  with.
\<close>

definition unpaired_surrogate :: "jsstring \<Rightarrow> nat \<Rightarrow> bool" where
  "unpaired_surrogate s i \<longleftrightarrow>
     (is_high_surrogate (s ! i) \<and> \<not> (Suc i < length s \<and> is_low_surrogate (s ! Suc i))) \<or>
     (is_low_surrogate (s ! i) \<and> \<not> (0 < i \<and> is_high_surrogate (s ! (i - 1))))"

text \<open>
  Lines 50-56: the form data sent to the server action, each value as \<open>append\<close>
  stores it.
\<close>

definition build_form_data :: "UrlFormData \<Rightarrow> FormData" where
  "build_form_data d =
     [(''url'', to_usv (url d))] @
     (if customCode d \<noteq> [] \<and> trim (customCode d) \<noteq> []
      then [(''customCode'', to_usv (trim (customCode d)))] else [])"

text \<open>Lines 44-47: the four setters that run before the \<open>try\<close>.\<close>

definition reset_state :: "form_state \<Rightarrow> form_state" where
  "reset_state st = st\<lparr>isLoading := True, error := None, shortUrl := None, shortCode := None\<rparr>"

text \<open>Lines 59-66: what a resolved response does to the state.\<close>

definition apply_response :: "ShortenData ApiResponse \<Rightarrow> form_state \<Rightarrow> form_state" where
  "apply_response response st =
     (case data response of
        Some d \<Rightarrow>
          (if success response
           then (let st' = st\<lparr>shortUrl := Some (data_shortUrl d)\<rparr>
                 in case shortCodeMatch (data_shortUrl d) of
                      Some g \<Rightarrow> (if g \<noteq> [] then st'\<lparr>shortCode := Some g\<rparr> else st')
                    | None \<Rightarrow> st')
           else st)
      | None \<Rightarrow> st)"

definition onSubmit :: "env \<Rightarrow> UrlFormData \<Rightarrow> form_state \<Rightarrow> form_state \<times> effect list" where
  "onSubmit e d st0 =
     (let st1 = reset_state st0;
          formData = build_form_data d
      in case shortenUrl e formData of
           Resolves response \<Rightarrow>
             (apply_response response st1\<lparr>isLoading := False\<rparr>,
              [CallShortenUrl formData] @
              (if session_user e \<and> str_includes (pathname e) (js ''/dashboard'')
               then [RouterRefresh] else []))
         | Throws \<Rightarrow>
             (st1\<lparr>error := Some (js ''An error occurred. Please try again.''),
                  isLoading := False\<rparr>,
              [CallShortenUrl formData, ConsoleError]))"

subsection \<open>handleSubmit\<close>

text \<open>
  \<open>form.handleSubmit(onSubmit)\<close> with \<open>zodResolver(urlSchema)\<close>: the form values are
  validated first; \<open>onSubmit\<close> runs on the parsed data only when there is no issue,
  otherwise the issues become the form's field errors and nothing else happens.
\<close>

record submit_result =
  field_issues :: "zod_issue list"
  state :: form_state
  effects :: "effect list"

definition handleSubmit ::
  "(jsstring \<Rightarrow> bool) \<Rightarrow> env \<Rightarrow> jsvalue UrlFields \<Rightarrow> form_state \<Rightarrow> submit_result" where
  "handleSubmit is_url e values st =
     (case urlSchema is_url values of
        Inl issues \<Rightarrow> \<lparr>field_issues = issues, state = st, effects = []\<rparr>
      | Inr d \<Rightarrow>
          (let (st', effs) = onSubmit e d st
           in \<lparr>field_issues = [], state = st', effects = effs\<rparr>))"

text \<open>The message shown under a field: that of the first issue on its path.\<close>

definition field_error :: "zod_issue list \<Rightarrow> string \<Rightarrow> zod_issue option" where
  "field_error issues p = find (\<lambda>i. path i = p) issues"

section \<open>The shortening service behind \<open>shortenUrl\<close>\<close>

text \<open>
  The server action \<open>@/server/actions/urls/shorten-url\<close> and the redirect route are
  not among the source files. Allocator, Resolver and Store are modelled here from the
  specification (sections 3 and 4). Store calls never time out in this model.
\<close>

text \<open>Modelled from the spec: the error taxonomy of section 7 (no source file declares it).\<close>

datatype core_error =
    ValidationError
  | ConflictError
  | ExhaustedError
  | NotFoundError
  | StoreUnavailableError

text \<open>
  Modelled from the spec: the entity UrlMapping of section 3 (the persisted row; the
  missing server code owns it, \<open>types.ts\<close> only declares its shape as \<open>Url\<close>).
  Timestamps are clock readings; \<open>clicks\<close> is an integer, so that its sign is a property
  to prove.
\<close>

record UrlMapping =
  mapping_id :: nat
  originalUrl :: jsstring
  mapping_shortCode :: jsstring
  createdAt :: nat
  updatedAt :: nat
  clicks :: int

text \<open>
  Modelled from the spec: the Store of section 4.3 (missing from the sources), as the
  rows in insertion order and the next identifier to assign.
\<close>

record Store =
  rows :: "UrlMapping list"
  next_id :: nat

definition empty_store :: Store where
  "empty_store = \<lparr>rows = [], next_id = 1\<rparr>"

text \<open>Modelled from the spec: \<open>findByCode(shortCode) -> UrlMapping | None\<close> of the missing Store.\<close>

definition findByCode :: "Store \<Rightarrow> jsstring \<Rightarrow> UrlMapping option" where
  "findByCode s c = find (\<lambda>m. mapping_shortCode m = c) (rows s)"

text \<open>
  Modelled from the spec: \<open>createMapping(originalUrl, shortCode) -> UrlMapping | ConflictError\<close>
  of the missing Store, which guarantees uniqueness of the code itself; the new row has
  a fresh identifier, both timestamps set to now and no clicks.
\<close>

definition createMapping ::
  "nat \<Rightarrow> jsstring \<Rightarrow> jsstring \<Rightarrow> Store \<Rightarrow> (core_error + UrlMapping) \<times> Store" where
  "createMapping now u c s =
     (case findByCode s c of
        Some _ \<Rightarrow> (Inl ConflictError, s)
      | None \<Rightarrow>
          (let m = \<lparr>mapping_id = next_id s, originalUrl = u, mapping_shortCode = c,
                    createdAt = now, updatedAt = now, clicks = 0\<rparr>
           in (Inr m, s\<lparr>rows := rows s @ [m], next_id := Suc (next_id s)\<rparr>)))"

text \<open>
  Modelled from the spec: \<open>incrementClicks(shortCode) -> ()\<close> of the missing Store, one
  update of the counter and of \<open>updatedAt\<close> on the rows with that code.
\<close>

definition incrementClicks :: "nat \<Rightarrow> jsstring \<Rightarrow> Store \<Rightarrow> Store" where
  "incrementClicks now c s =
     s\<lparr>rows := map (\<lambda>m. if mapping_shortCode m = c
                          then m\<lparr>clicks := clicks m + 1, updatedAt := now\<rparr> else m)
                   (rows s)\<rparr>"

text \<open>
  Modelled from the spec: the Allocator's check of a supplied custom code (section 4.1:
  length at most 255 and character set \<open>[A-Za-z0-9_-]+\<close>); the server code is missing.
\<close>

definition valid_custom_code :: "jsstring \<Rightarrow> bool" where
  "valid_custom_code c \<longleftrightarrow> length c \<le> 255 \<and> c \<noteq> [] \<and> list_all is_code_char c"

text \<open>
  Modelled from the spec: the bounded retry loop of the missing code generator (sections
  4.1 and 9). \<open>gen i\<close> is the code drawn at attempt \<open>i\<close>; the first draw that is not in
  the Store is taken, and after \<open>max_attempts\<close> collisions the loop gives up.
\<close>

definition max_attempts :: nat where
  "max_attempts = 5"

fun generate :: "(nat \<Rightarrow> jsstring) \<Rightarrow> Store \<Rightarrow> nat \<Rightarrow> nat \<Rightarrow> jsstring option" where
  "generate gen s i 0 = None"
| "generate gen s i (Suc left) =
     (if findByCode s (gen i) = None then Some (gen i) else generate gen s (Suc i) left)"

text \<open>
  Modelled from the spec: configuration of the missing service (section 6), the base
  origin and the path prefix of a short URL.
\<close>

record config =
  base_origin :: jsstring
  path_prefix :: jsstring

text \<open>
  Modelled from the spec: what the missing Allocator returns, the full short URL (base
  origin, path prefix, code) together with the code it allocated.
\<close>

datatype allocation = Allocation (alloc_code: jsstring) (alloc_shortUrl: jsstring)

text \<open>
  Modelled from the spec: persisting an allocated code through the missing Store; a
  uniqueness violation reported by the Store is the Allocator's \<open>ConflictError\<close>.
\<close>

definition persist ::
  "config \<Rightarrow> nat \<Rightarrow> jsstring \<Rightarrow> jsstring \<Rightarrow> Store \<Rightarrow> (core_error + allocation) \<times> Store" where
  "persist cfg now u c s =
     (case createMapping now u c s of
        (Inl err, s') \<Rightarrow> (Inl err, s')
      | (Inr m, s') \<Rightarrow>
          (Inr (Allocation (mapping_shortCode m)
                  (base_origin cfg @ path_prefix cfg @ mapping_shortCode m)), s'))"

text \<open>
  Modelled from the spec: the Code Allocator of section 4.1 (the body of the missing
  server action). \<open>is_url\<close> is the URL-syntax predicate.
\<close>

definition allocate ::
  "config \<Rightarrow> (jsstring \<Rightarrow> bool) \<Rightarrow> nat \<Rightarrow> (nat \<Rightarrow> jsstring) \<Rightarrow> jsstring \<Rightarrow> jsstring option \<Rightarrow>
     Store \<Rightarrow> (core_error + allocation) \<times> Store" where
  "allocate cfg is_url now gen u custom s =
     (if \<not> is_url u then (Inl ValidationError, s)
      else case custom of
             Some c \<Rightarrow>
               (if valid_custom_code c then persist cfg now u c s
                else (Inl ValidationError, s))
           | None \<Rightarrow>
               (case generate gen s 0 max_attempts of
                  Some c \<Rightarrow> persist cfg now u c s
                | None \<Rightarrow> (Inl ExhaustedError, s)))"

text \<open>
  Modelled from the spec: the Redirect Resolver of section 4.2 (the missing redirect
  route): look the code up, count the visit, return the original URL.
\<close>

definition resolve :: "nat \<Rightarrow> jsstring \<Rightarrow> Store \<Rightarrow> (core_error + jsstring) \<times> Store" where
  "resolve now c s =
     (case findByCode s c of
        None \<Rightarrow> (Inl NotFoundError, s)
      | Some m \<Rightarrow> (Inr (originalUrl m), incrementClicks now c s))"

text \<open>
  Modelled from the spec: the HTTP boundary of the missing redirect route, a temporary
  redirect to the original URL or status 404.
\<close>

record http_response =
  status :: nat
  location :: "jsstring option"

definition redirect_route :: "nat \<Rightarrow> jsstring \<Rightarrow> Store \<Rightarrow> http_response \<times> Store" where
  "redirect_route now c s =
     (case resolve now c s of
        (Inr u, s') \<Rightarrow> (\<lparr>status = 302, location = Some u\<rparr>, s')
      | (Inl err, s') \<Rightarrow> (\<lparr>status = 404, location = None\<rparr>, s'))"

text \<open>
  Modelled from the spec: the two requests the missing service handles, each an
  independent operation on the Store (section 5), and a run of them in order.
\<close>

datatype request =
    Shorten nat "nat \<Rightarrow> jsstring" jsstring "jsstring option"
  | Visit nat jsstring

fun serve :: "config \<Rightarrow> (jsstring \<Rightarrow> bool) \<Rightarrow> request \<Rightarrow> Store \<Rightarrow> Store" where
  "serve cfg is_url (Shorten now gen u custom) s = snd (allocate cfg is_url now gen u custom s)"
| "serve cfg is_url (Visit now c) s = snd (resolve now c s)"

definition run :: "config \<Rightarrow> (jsstring \<Rightarrow> bool) \<Rightarrow> request list \<Rightarrow> Store \<Rightarrow> Store" where
  "run cfg is_url rs s = foldl (\<lambda>s' r. serve cfg is_url r s') s rs"

text \<open>Modelled from the spec: a successful redirect to code \<open>c\<close>, among the requests.\<close>

fun is_visit :: "jsstring \<Rightarrow> request \<Rightarrow> bool" where
  "is_visit c (Visit now c') = (c' = c)"
| "is_visit c (Shorten now gen u custom) = False"

section \<open>Validation (src/lib/types.ts)\<close>

lemma customCode_regex_iff:
  "customCode_regex s \<longleftrightarrow> s \<noteq> [] \<and> (\<forall>c\<in>set s. is_code_char c)"
  unfolding customCode_regex_def by (cases s) auto

lemma customCode_field_Inr:
  "customCode_field v = Inr c \<longleftrightarrow> v = JString c \<and> customCode_regex c \<and> length c \<le> 255"
  by (cases v) (auto simp: customCode_field_def Let_def)

lemma url_field_Inr:
  "url_field is_url v = Inr u \<longleftrightarrow> v = JString u \<and> is_url u"
  by (cases v) (auto simp: url_field_def)

lemma urlSchema_Inr:
  "urlSchema is_url inp = Inr d \<longleftrightarrow>
     url inp = JString (url d) \<and> customCode inp = JString (customCode d) \<and>
     is_url (url d) \<and> customCode_regex (customCode d) \<and> length (customCode d) \<le> 255"
proof -
  have "url_field is_url (url inp) = Inr (url d) \<and> customCode_field (customCode inp) = Inr (customCode d)
    \<longleftrightarrow> urlSchema is_url inp = Inr d"
    by (cases d) (auto simp: urlSchema_def split: sum.splits)
  then show ?thesis
    unfolding customCode_field_Inr url_field_Inr by blast
qed

lemma customCode_field_bad:
  assumes "\<not> customCode_regex c \<or> 255 < length c"
  shows "\<exists>i rest. customCode_field (JString c) = Inl (i # rest) \<and> path i = ''customCode'' \<and>
     (message i = Some ''Custom code must be less than 255 characters'' \<or>
      message i = Some ''Custom code must be alphanumeric or hyphen'')"
  using assms by (auto simp: customCode_field_def Let_def)

lemma field_error_append_url:
  "\<forall>i\<in>set xs. path i = ''url'' \<Longrightarrow> field_error (xs @ ys) ''customCode'' = field_error ys ''customCode''"
  by (induction xs) (auto simp: field_error_def)

lemma url_field_issues_path: "\<forall>i\<in>set (issues_of (url_field is_url v)). path i = ''url''"
  by (cases v) (auto simp: url_field_def issues_of_def)

lemma urlSchema_bad_customCode:
  assumes "customCode inp = JString c" "\<not> customCode_regex c \<or> 255 < length c"
  shows "\<exists>issues i. urlSchema is_url inp = Inl issues \<and>
           field_error issues ''customCode'' = Some i \<and>
           (message i = Some ''Custom code must be less than 255 characters'' \<or>
            message i = Some ''Custom code must be alphanumeric or hyphen'')"
proof -
  from customCode_field_bad[OF assms(2)] obtain i rest where
    cf: "customCode_field (JString c) = Inl (i # rest)" and p: "path i = ''customCode''" and
    m: "message i = Some ''Custom code must be less than 255 characters'' \<or>
      message i = Some ''Custom code must be alphanumeric or hyphen''" by blast
  have "urlSchema is_url inp = Inl (issues_of (url_field is_url (url inp)) @ (i # rest))"
    using cf assms(1) by (cases "url_field is_url (url inp)") (auto simp: urlSchema_def issues_of_def)
  moreover have "field_error (issues_of (url_field is_url (url inp)) @ (i # rest)) ''customCode'' = Some i"
    using p by (simp add: field_error_append_url[OF url_field_issues_path]) (simp add: field_error_def)
  ultimately show ?thesis using m by blast
qed

text \<open>
  C1. Validation succeeds exactly when \<open>url\<close> is a string that satisfies the URL-syntax
  predicate and \<open>customCode\<close> is a string that matches \<open>^[A-Za-z0-9_-]+$\<close> (non-empty,
  every code unit in the class) and has at most 255 code units. An input whose
  \<open>customCode\<close> fails the pattern or is longer than 255 is rejected with a field error on
  \<open>customCode\<close> carrying one of the schema's two messages, and \<open>handleSubmit\<close> then
  leaves the component state as it was and makes no call: \<open>shortenUrl\<close> is not invoked,
  so nothing is sent to be persisted.
\<close>

theorem urlSchema_validation_iff:
  "((\<exists>d. urlSchema is_url inp = Inr d) \<longleftrightarrow>
      (\<exists>u c. url inp = JString u \<and> customCode inp = JString c \<and> is_url u \<and>
         c \<noteq> [] \<and> (\<forall>x\<in>set c. is_code_char x) \<and> length c \<le> 255)) \<and>
   (\<forall>c. customCode inp = JString c \<and>
       (\<not> (c \<noteq> [] \<and> (\<forall>x\<in>set c. is_code_char x)) \<or> 255 < length c) \<longrightarrow>
       (\<exists>issues i. urlSchema is_url inp = Inl issues \<and>
          field_error issues ''customCode'' = Some i \<and>
          (message i = Some ''Custom code must be less than 255 characters'' \<or>
           message i = Some ''Custom code must be alphanumeric or hyphen'') \<and>
          handleSubmit is_url e inp st = \<lparr>field_issues = issues, state = st, effects = []\<rparr>))"
proof (intro conjI allI impI)
  show "(\<exists>d. urlSchema is_url inp = Inr d) \<longleftrightarrow>
      (\<exists>u c. url inp = JString u \<and> customCode inp = JString c \<and> is_url u \<and>
         c \<noteq> [] \<and> (\<forall>x\<in>set c. is_code_char x) \<and> length c \<le> 255)"
  proof
    assume "\<exists>d. urlSchema is_url inp = Inr d"
    then obtain d where "urlSchema is_url inp = Inr d" ..
    then show "\<exists>u c. url inp = JString u \<and> customCode inp = JString c \<and> is_url u \<and>
         c \<noteq> [] \<and> (\<forall>x\<in>set c. is_code_char x) \<and> length c \<le> 255"
      unfolding urlSchema_Inr customCode_regex_iff by blast
  next
    assume "\<exists>u c. url inp = JString u \<and> customCode inp = JString c \<and> is_url u \<and>
         c \<noteq> [] \<and> (\<forall>x\<in>set c. is_code_char x) \<and> length c \<le> 255"
    then obtain u c where "url inp = JString u" "customCode inp = JString c" "is_url u"
      "customCode_regex c" "length c \<le> 255"
      unfolding customCode_regex_iff by blast
    then have "urlSchema is_url inp = Inr \<lparr>url = u, customCode = c\<rparr>"
      by (simp add: urlSchema_Inr)
    then show "\<exists>d. urlSchema is_url inp = Inr d" ..
  qed
next
  fix c
  assume a: "customCode inp = JString c \<and>
       (\<not> (c \<noteq> [] \<and> (\<forall>x\<in>set c. is_code_char x)) \<or> 255 < length c)"
  then have "\<not> customCode_regex c \<or> 255 < length c"
    unfolding customCode_regex_iff by blast
  with a obtain issues i where r: "urlSchema is_url inp = Inl issues"
    "field_error issues ''customCode'' = Some i"
    "message i = Some ''Custom code must be less than 255 characters'' \<or>
     message i = Some ''Custom code must be alphanumeric or hyphen''"
    using urlSchema_bad_customCode by blast
  moreover have "handleSubmit is_url e inp st = \<lparr>field_issues = issues, state = st, effects = []\<rparr>"
    using r(1) by (simp add: handleSubmit_def)
  ultimately show "\<exists>issues i. urlSchema is_url inp = Inl issues \<and>
          field_error issues ''customCode'' = Some i \<and>
          (message i = Some ''Custom code must be less than 255 characters'' \<or>
           message i = Some ''Custom code must be alphanumeric or hyphen'') \<and>
          handleSubmit is_url e inp st = \<lparr>field_issues = issues, state = st, effects = []\<rparr>"
    by blast
qed


theorem urlSchema_validation_iff_witness:
  "(\<exists>d. urlSchema (\<lambda>u. take 8 u = js ''https://'')
          \<lparr>url = JString (js ''https://example.com''), customCode = JString (js ''abc-1_2'')\<rparr> = Inr d) \<and>
   effects (handleSubmit (\<lambda>u. take 8 u = js ''https://'')
      \<lparr>shortenUrl = (\<lambda>fd. Throws), session_user = False, pathname = js ''/''\<rparr>
      \<lparr>url = JString (js ''https://example.com''), customCode = JString (js ''my code'')\<rparr>
      initial_state) = [] \<and>
   state (handleSubmit (\<lambda>u. take 8 u = js ''https://'')
      \<lparr>shortenUrl = (\<lambda>fd. Throws), session_user = False, pathname = js ''/''\<rparr>
      \<lparr>url = JString (js ''https://example.com''), customCode = JString (js ''my code'')\<rparr>
      initial_state) = initial_state"
proof -
  let ?isu = "\<lambda>u::jsstring. take 8 u = js ''https://''"
  let ?good = "\<lparr>url = JString (js ''https://example.com''), customCode = JString (js ''abc-1_2'')\<rparr>"
  let ?bad = "\<lparr>url = JString (js ''https://example.com''), customCode = JString (js ''my code'')\<rparr>"
  let ?e = "\<lparr>shortenUrl = (\<lambda>fd. Throws), session_user = False, pathname = js ''/''\<rparr>"
  have good: "\<exists>u c. url ?good = JString u \<and> customCode ?good = JString c \<and> ?isu u \<and>
         c \<noteq> [] \<and> (\<forall>x\<in>set c. is_code_char x) \<and> length c \<le> 255"
    by (simp add: js_def is_code_char_def)
  have bad: "customCode ?bad = JString (js ''my code'') \<and>
       (\<not> (js ''my code'' \<noteq> [] \<and> (\<forall>x\<in>set (js ''my code''). is_code_char x)) \<or>
        255 < length (js ''my code''))"
    by (simp add: js_def is_code_char_def)
  have 1: "\<exists>d. urlSchema ?isu ?good = Inr d"
    using urlSchema_validation_iff[where is_url = ?isu and inp = ?good] good by blast
  obtain issues where
    2: "handleSubmit ?isu ?e ?bad initial_state =
          \<lparr>field_issues = issues, state = initial_state, effects = []\<rparr>"
    using urlSchema_validation_iff[where is_url = ?isu and inp = ?bad and e = ?e
        and st = initial_state] bad by blast
  show ?thesis using 1 2 by simp
qed

section \<open>The form (src/components/urls/url-shortener-form.tsx)\<close>

lemma js_r: "js ''/r/'' = [slash, 0x72, slash]"
  by (simp add: js_def slash_def)

lemma takeWhile_all_iff: "takeWhile P xs = xs \<longleftrightarrow> (\<forall>x\<in>set xs. P x)"
  by (induction xs) auto

lemma match_here_Some:
  "match_here s = Some g \<longleftrightarrow> s = js ''/r/'' @ g \<and> g \<noteq> [] \<and> slash \<notin> set g"
proof -
  have a: "take 3 s = js ''/r/'' \<longleftrightarrow> s = js ''/r/'' @ drop 3 s"
    by (metis append_take_drop_id append_eq_conv_conj length_Cons list.size(3) js_r numeral_3_eq_3)
  show ?thesis
  proof
    assume "match_here s = Some g"
    then have t: "take 3 s = js ''/r/''" and g: "g = takeWhile (\<lambda>c. c \<noteq> slash) (drop 3 s)"
      and ne: "g \<noteq> []" and dw: "dropWhile (\<lambda>c. c \<noteq> slash) (drop 3 s) = []"
      by (auto simp: match_here_def Let_def split: if_splits)
    from dw have all: "\<forall>x\<in>set (drop 3 s). x \<noteq> slash" by (simp add: dropWhile_eq_Nil_conv)
    then have "g = drop 3 s" using g by (simp add: takeWhile_all_iff[THEN iffD2])
    with t a all ne show "s = js ''/r/'' @ g \<and> g \<noteq> [] \<and> slash \<notin> set g" by auto
  next
    assume r: "s = js ''/r/'' @ g \<and> g \<noteq> [] \<and> slash \<notin> set g"
    then have d: "drop 3 s = g" and t: "take 3 s = js ''/r/''" by (simp_all add: js_r)
    have all: "\<forall>x\<in>set g. x \<noteq> slash" using r by auto
    then have tw: "takeWhile (\<lambda>c. c \<noteq> slash) g = g" and dw: "dropWhile (\<lambda>c. c \<noteq> slash) g = []"
      by (simp_all add: takeWhile_all_iff[THEN iffD2])
    have ne: "g \<noteq> []" using r by simp
    show "match_here s = Some g"
      unfolding match_here_def Let_def d t tw dw using ne by simp
  qed
qed

text \<open>The captured segment is what follows the last slash, so it is unique.\<close>

lemma segment_unique:
  assumes "s = p @ js ''/r/'' @ g" "slash \<notin> set g"
  shows "g = rev (takeWhile (\<lambda>c. c \<noteq> slash) (rev s))"
proof -
  have "rev s = rev g @ slash # (0x72 # slash # rev p)"
    using assms(1) by (simp add: js_r)
  moreover have "\<forall>x\<in>set (rev g). x \<noteq> slash" using assms(2) by auto
  ultimately have "takeWhile (\<lambda>c. c \<noteq> slash) (rev s) = rev g"
    by (simp add: takeWhile_tail)
  then show ?thesis by simp
qed

lemma shortCodeMatch_Some:
  "shortCodeMatch s = Some g \<longleftrightarrow> (\<exists>p. s = p @ js ''/r/'' @ g) \<and> g \<noteq> [] \<and> slash \<notin> set g"
proof (induction s)
  case Nil
  show ?case by (simp add: match_here_Some js_r)
next
  case (Cons c s)
  show ?case
  proof (cases "match_here (c # s)")
    case (Some g')
    then have d: "c # s = [] @ js ''/r/'' @ g'" "g' \<noteq> []" "slash \<notin> set g'"
      by (simp_all add: match_here_Some)
    show ?thesis
    proof
      assume "shortCodeMatch (c # s) = Some g"
      with Some have "g = g'" by simp
      with d show "(\<exists>p. c # s = p @ js ''/r/'' @ g) \<and> g \<noteq> [] \<and> slash \<notin> set g" by blast
    next
      assume r: "(\<exists>p. c # s = p @ js ''/r/'' @ g) \<and> g \<noteq> [] \<and> slash \<notin> set g"
      then obtain p where "c # s = p @ js ''/r/'' @ g" by blast
      with r have "g = rev (takeWhile (\<lambda>c. c \<noteq> slash) (rev (c # s)))"
        using segment_unique by blast
      moreover have "g' = rev (takeWhile (\<lambda>c. c \<noteq> slash) (rev (c # s)))"
        using segment_unique[OF d(1) d(3)] .
      ultimately show "shortCodeMatch (c # s) = Some g" using Some by simp
    qed
  next
    case None
    have "(\<exists>p. c # s = p @ js ''/r/'' @ g) \<longleftrightarrow> (\<exists>p. s = p @ js ''/r/'' @ g) \<or> c # s = js ''/r/'' @ g"
    proof
      assume "\<exists>p. c # s = p @ js ''/r/'' @ g"
      then obtain p where p: "c # s = p @ js ''/r/'' @ g" ..
      show "(\<exists>p. s = p @ js ''/r/'' @ g) \<or> c # s = js ''/r/'' @ g"
      proof (cases p)
        case Nil with p show ?thesis by simp
      next
        case (Cons a p') with p show ?thesis by auto
      qed
    next
      assume "(\<exists>p. s = p @ js ''/r/'' @ g) \<or> c # s = js ''/r/'' @ g"
      then show "\<exists>p. c # s = p @ js ''/r/'' @ g"
      proof
        assume "\<exists>p. s = p @ js ''/r/'' @ g"
        then obtain p where "s = p @ js ''/r/'' @ g" ..
        then have "c # s = (c # p) @ js ''/r/'' @ g" by simp
        then show ?thesis ..
      next
        assume "c # s = js ''/r/'' @ g"
        then have "c # s = [] @ js ''/r/'' @ g" by simp
        then show ?thesis ..
      qed
    qed
    moreover have "\<not> (c # s = js ''/r/'' @ g \<and> g \<noteq> [] \<and> slash \<notin> set g)"
      using None match_here_Some[of "c # s" g] by simp
    ultimately show ?thesis using None Cons.IH by auto
  qed
qed


lemma apply_response_success:
  "apply_response \<lparr>success = True, data = Some (ShortenData su), resp_error = er\<rparr> st =
     st\<lparr>shortUrl := Some su,
        shortCode := (case shortCodeMatch su of Some g \<Rightarrow> Some g | None \<Rightarrow> shortCode st)\<rparr>"
proof (cases "shortCodeMatch su")
  case None
  then show ?thesis by (simp add: apply_response_def)
next
  case (Some g)
  then have "g \<noteq> []" by (simp add: shortCodeMatch_Some)
  with Some show ?thesis by (simp add: apply_response_def)
qed

lemma apply_response_failure:
  "\<not> success r \<or> data r = None \<Longrightarrow> apply_response r st = st"
  by (auto simp: apply_response_def split: option.splits)

lemma onSubmit_Resolves:
  "shortenUrl e (build_form_data d) = Resolves r \<Longrightarrow>
     onSubmit e d st =
       (apply_response r (reset_state st)\<lparr>isLoading := False\<rparr>,
        CallShortenUrl (build_form_data d) #
        (if session_user e \<and> str_includes (pathname e) (js ''/dashboard'')
         then [RouterRefresh] else []))"
  by (simp add: onSubmit_def Let_def)

lemma onSubmit_Throws:
  "shortenUrl e (build_form_data d) = Throws \<Longrightarrow>
     onSubmit e d st =
       (reset_state st\<lparr>error := Some (js ''An error occurred. Please try again.''),
                        isLoading := False\<rparr>,
        [CallShortenUrl (build_form_data d), ConsoleError])"
  by (simp add: onSubmit_def Let_def)

text \<open>
  C3. After a response with \<open>success\<close> true and data \<open>{shortUrl: su}\<close>, the \<open>shortCode\<close>
  state is \<open>g\<close> exactly when \<open>su\<close> ends with \<open>/r/\<close> followed by the non-empty, slash-free
  segment \<open>g\<close>; it is null exactly when \<open>su\<close> has no such ending. \<open>shortUrl\<close> is \<open>su\<close>
  either way.
\<close>

theorem onSubmit_shortCode_iff:
  assumes "shortenUrl e (build_form_data d) =
             Resolves \<lparr>success = True, data = Some (ShortenData su), resp_error = er\<rparr>"
  shows "(shortCode (fst (onSubmit e d st)) = Some g \<longleftrightarrow>
            (\<exists>p. su = p @ js ''/r/'' @ g) \<and> g \<noteq> [] \<and> slash \<notin> set g) \<and>
         (shortCode (fst (onSubmit e d st)) = None \<longleftrightarrow>
            \<not> (\<exists>p g'. su = p @ js ''/r/'' @ g' \<and> g' \<noteq> [] \<and> slash \<notin> set g')) \<and>
         shortUrl (fst (onSubmit e d st)) = Some su"
proof -
  have sc: "shortCode (fst (onSubmit e d st)) = shortCodeMatch su"
    using onSubmit_Resolves[OF assms, of st]
    by (simp add: apply_response_success reset_state_def split: option.splits)
  have su: "shortUrl (fst (onSubmit e d st)) = Some su"
    using onSubmit_Resolves[OF assms, of st] by (simp add: apply_response_success)
  have none: "shortCodeMatch su = None \<longleftrightarrow>
      \<not> (\<exists>p g'. su = p @ js ''/r/'' @ g' \<and> g' \<noteq> [] \<and> slash \<notin> set g')"
  proof -
    have "shortCodeMatch su = None \<longleftrightarrow> (\<forall>g'. shortCodeMatch su \<noteq> Some g')" by auto
    then show ?thesis unfolding shortCodeMatch_Some by blast
  qed
  show ?thesis unfolding sc using su none shortCodeMatch_Some[of su g] by simp
qed

theorem onSubmit_shortCode_iff_witness:
  "shortCode (fst (onSubmit
      \<lparr>shortenUrl = (\<lambda>fd. Resolves \<lparr>success = True,
           data = Some (ShortenData (js ''https://sho.rt/r/abc123'')), resp_error = None\<rparr>),
        session_user = False, pathname = js ''/''\<rparr>
      \<lparr>url = js ''https://example.com/path?q=1'', customCode = js ''abc123''\<rparr>
      initial_state)) = Some (js ''abc123'') \<and>
   shortCode (fst (onSubmit
      \<lparr>shortenUrl = (\<lambda>fd. Resolves \<lparr>success = True,
           data = Some (ShortenData (js ''https://sho.rt/r/abc123/'')), resp_error = None\<rparr>),
        session_user = False, pathname = js ''/''\<rparr>
      \<lparr>url = js ''https://example.com/path?q=1'', customCode = js ''abc123''\<rparr>
      initial_state)) = None"
proof -
  let ?d = "\<lparr>url = js ''https://example.com/path?q=1'', customCode = js ''abc123''\<rparr>"
  let ?e1 = "\<lparr>shortenUrl = (\<lambda>fd. Resolves \<lparr>success = True,
           data = Some (ShortenData (js ''https://sho.rt/r/abc123'')), resp_error = None\<rparr>),
        session_user = False, pathname = js ''/''\<rparr>"
  let ?e2 = "\<lparr>shortenUrl = (\<lambda>fd. Resolves \<lparr>success = True,
           data = Some (ShortenData (js ''https://sho.rt/r/abc123/'')), resp_error = None\<rparr>),
        session_user = False, pathname = js ''/''\<rparr>"
  have h1: "shortenUrl ?e1 (build_form_data ?d) = Resolves \<lparr>success = True,
           data = Some (ShortenData (js ''https://sho.rt/r/abc123'')), resp_error = None\<rparr>"
    by simp
  have h2: "shortenUrl ?e2 (build_form_data ?d) = Resolves \<lparr>success = True,
           data = Some (ShortenData (js ''https://sho.rt/r/abc123/'')), resp_error = None\<rparr>"
    by simp
  have dec: "js ''https://sho.rt/r/abc123'' = js ''https://sho.rt'' @ js ''/r/'' @ js ''abc123''"
    by (simp add: js_def)
  have ok: "js ''abc123'' \<noteq> [] \<and> slash \<notin> set (js ''abc123'')"
    by (simp add: js_def slash_def)
  have a: "shortCode (fst (onSubmit ?e1 ?d initial_state)) = Some (js ''abc123'')"
    using onSubmit_shortCode_iff[OF h1, of initial_state "js ''abc123''"] dec ok by blast
  have "shortCode (fst (onSubmit ?e2 ?d initial_state)) = shortCodeMatch (js ''https://sho.rt/r/abc123/'')"
    by (simp add: onSubmit_Resolves apply_response_success reset_state_def initial_state_def
        split: option.splits)
  moreover have "shortCodeMatch (js ''https://sho.rt/r/abc123/'') = None"
    by (simp add: js_def match_here_def slash_def)
  ultimately have b: "shortCode (fst (onSubmit ?e2 ?d initial_state)) = None" by simp
  show ?thesis using a b by simp
qed


lemma dropWhile_Nil_iff: "dropWhile P xs = [] \<longleftrightarrow> (\<forall>x\<in>set xs. P x)"
  by (induction xs) auto

lemma trim_Nil_iff: "trim s = [] \<longleftrightarrow> (\<forall>c\<in>set s. is_js_space c)"
proof -
  have "trim s = [] \<longleftrightarrow> (\<forall>c\<in>set (dropWhile is_js_space s). is_js_space c)"
    by (simp add: trim_def dropWhile_Nil_iff)
  also have "\<dots> \<longleftrightarrow> dropWhile is_js_space s = []"
  proof (cases "dropWhile is_js_space s")
    case Nil
    show ?thesis unfolding Nil by simp
  next
    case (Cons a as)
    then have "\<not> is_js_space a" using hd_dropWhile[of is_js_space s] by auto
    then show ?thesis unfolding Cons by simp
  qed
  finally show ?thesis by (simp add: dropWhile_Nil_iff)
qed

text \<open>
  \<open>trim\<close> does remove exactly the whitespace at both ends: what it cuts off is
  whitespace, and what it keeps neither starts nor ends with whitespace.
\<close>

lemma trim_decomposition:
  "\<exists>l r. s = l @ trim s @ r \<and> list_all is_js_space l \<and> list_all is_js_space r \<and>
         (trim s = [] \<or> (\<not> is_js_space (hd (trim s)) \<and> \<not> is_js_space (last (trim s))))"
proof -
  let ?l = "takeWhile is_js_space s"
  let ?m = "dropWhile is_js_space s"
  let ?r = "rev (takeWhile is_js_space (rev ?m))"
  have m: "?m = trim s @ ?r"
  proof -
    have "rev ?m = takeWhile is_js_space (rev ?m) @ dropWhile is_js_space (rev ?m)" by simp
    then have "rev (rev ?m) = rev (takeWhile is_js_space (rev ?m) @ dropWhile is_js_space (rev ?m))"
      by simp
    then show ?thesis unfolding trim_def by (simp only: rev_append rev_rev_ident)
  qed
  have s: "s = ?l @ trim s @ ?r" using m by (metis takeWhile_dropWhile_id)
  have l: "list_all is_js_space ?l" by (simp add: list_all_iff) (meson set_takeWhileD)
  have r: "list_all is_js_space ?r" by (simp add: list_all_iff) (meson set_takeWhileD)
  have e: "trim s = [] \<or> (\<not> is_js_space (hd (trim s)) \<and> \<not> is_js_space (last (trim s)))"
  proof (cases "trim s = []")
    case True then show ?thesis by simp
  next
    case False
    have "last (trim s) = hd (dropWhile is_js_space (rev ?m))"
      using False unfolding trim_def by (simp add: last_rev)
    moreover have "dropWhile is_js_space (rev ?m) \<noteq> []" using False unfolding trim_def by simp
    ultimately have la: "\<not> is_js_space (last (trim s))" using hd_dropWhile by metis
    have "?m \<noteq> []"
    proof
      assume "?m = []"
      then have "trim s = []" unfolding trim_def by (simp only: rev.simps dropWhile.simps)
      with False show False by simp
    qed
    then have hm: "\<not> is_js_space (hd ?m)" using hd_dropWhile by metis
    have "hd ?m = hd (trim s)" using m False by (metis hd_append2)
    with hm la show ?thesis by simp
  qed
  from s l r e show ?thesis by blast
qed

lemma surrogate_disjoint: "is_high_surrogate c \<Longrightarrow> \<not> is_low_surrogate c"
  by (auto simp: is_high_surrogate_def is_low_surrogate_def word_le_nat_alt)

lemma length_to_usv: "length (to_usv s) = length s"
  by (induction s rule: to_usv.induct) auto

lemma unpaired_Cons_0:
  "unpaired_surrogate (c # t) 0 \<longleftrightarrow>
     (is_high_surrogate c \<and> \<not> (t \<noteq> [] \<and> is_low_surrogate (hd t))) \<or> is_low_surrogate c"
  by (cases t) (auto simp: unpaired_surrogate_def)

lemma unpaired_Cons_Suc:
  "unpaired_surrogate (c # t) (Suc j) \<longleftrightarrow>
     (if j = 0
      then (is_high_surrogate (t ! 0) \<and> \<not> (Suc 0 < length t \<and> is_low_surrogate (t ! Suc 0))) \<or>
           (is_low_surrogate (t ! 0) \<and> \<not> is_high_surrogate c)
      else unpaired_surrogate t j)"
  by (cases j) (auto simp: unpaired_surrogate_def)

lemma unpaired_Cons_Suc_plain:
  "\<not> is_high_surrogate c \<or> \<not> is_low_surrogate (hd t) \<Longrightarrow> j < length t \<Longrightarrow>
     unpaired_surrogate (c # t) (Suc j) \<longleftrightarrow> unpaired_surrogate t j"
  by (cases t; cases j) (auto simp: unpaired_surrogate_def)

lemma to_usv_nth:
  "i < length s \<Longrightarrow> to_usv s ! i = (if unpaired_surrogate s i then 0xFFFD else s ! i)"
proof (induction s arbitrary: i rule: to_usv.induct)
  case 1
  then show ?case by simp
next
  case (2 c)
  then show ?case by (simp add: unpaired_Cons_0)
next
  case (3 c d s)
  show ?case
  proof (cases i)
    case 0
    then show ?thesis using surrogate_disjoint[of c] by (auto simp: unpaired_Cons_0)
  next
    case (Suc j)
    with "3.prems" have j: "j < length (d # s)" by simp
    show ?thesis
    proof (cases "is_high_surrogate c \<and> is_low_surrogate d")
      case False
      then have u: "unpaired_surrogate (c # d # s) (Suc j) \<longleftrightarrow> unpaired_surrogate (d # s) j"
        using unpaired_Cons_Suc_plain[of c "d # s" j] j by auto
      have "to_usv (c # d # s) ! Suc j = to_usv (d # s) ! j"
        using False by auto
      also have "\<dots> = (if unpaired_surrogate (d # s) j then 0xFFFD else (d # s) ! j)"
        using False "3.IH"(2,3,4)[of j] j by (cases "is_high_surrogate c"; cases "is_low_surrogate c") auto
      finally show ?thesis unfolding Suc u by simp
    next
      case True
      then have hd: "\<not> is_high_surrogate d" using surrogate_disjoint[of d] by auto
      show ?thesis
      proof (cases j)
        case 0
        then show ?thesis using True hd unfolding Suc by (simp add: unpaired_Cons_Suc)
      next
        case (Suc k)
        with j have k: "k < length s" by simp
        have "unpaired_surrogate (c # d # s) (Suc (Suc k)) \<longleftrightarrow> unpaired_surrogate (d # s) (Suc k)"
          by (simp add: unpaired_Cons_Suc)
        also have "\<dots> \<longleftrightarrow> unpaired_surrogate s k"
          using unpaired_Cons_Suc_plain[of d s k] hd k by simp
        finally have u: "unpaired_surrogate (c # d # s) (Suc (Suc k)) \<longleftrightarrow> unpaired_surrogate s k" .
        show ?thesis unfolding \<open>i = Suc j\<close> Suc u using True "3.IH"(1)[of k] k by simp
      qed
    qed
  qed
qed

lemma to_usv_no_surrogates:
  assumes "\<forall>c\<in>set s. \<not> is_high_surrogate c \<and> \<not> is_low_surrogate c"
  shows "to_usv s = s"
  using assms by (induction s rule: to_usv.induct) auto


text \<open>
  After validation the custom code has neither whitespace nor surrogates and is not
  empty, so it is always sent, and sent as it was typed.
\<close>

lemma validated_form_data:
  assumes "urlSchema is_url inp = Inr d"
  shows "build_form_data d = [(''url'', to_usv (url d)), (''customCode'', customCode d)]"
proof -
  from assms have re: "customCode_regex (customCode d)" by (simp add: urlSchema_Inr)
  then have ne: "customCode d \<noteq> []" and cl: "\<forall>c\<in>set (customCode d). is_code_char c"
    by (simp_all add: customCode_regex_iff)
  have ns: "\<not> is_js_space c" if "is_code_char c" for c
  proof
    assume "is_js_space c"
    then have "c \<in> {0x0009, 0x000A, 0x000B, 0x000C, 0x000D, 0x0020, 0x00A0, 0x1680,
          0x2028, 0x2029, 0x202F, 0x205F, 0x3000, 0xFEFF} \<or> 0x2000 \<le> c \<and> c \<le> 0x200A"
      unfolding is_js_space_def by blast
    then show False using that unfolding is_code_char_def
      by (elim disjE insertE emptyE conjE) (simp_all add: word_le_def)
  qed
  have nsur: "\<not> is_high_surrogate c \<and> \<not> is_low_surrogate c" if "is_code_char c" for c
    using that unfolding is_code_char_def is_high_surrogate_def is_low_surrogate_def
    by (auto simp: word_le_nat_alt)
  obtain a as where c: "customCode d = a # as" using ne by (cases "customCode d") auto
  have "\<not> is_js_space a" using ns cl c by simp
  then have dw: "dropWhile is_js_space (customCode d) = customCode d" using c by simp
  have "\<not> is_js_space (last (customCode d))" using ns cl ne last_in_set by blast
  then have "dropWhile is_js_space (rev (customCode d)) = rev (customCode d)"
    using ne by (cases "customCode d" rule: rev_cases) simp_all
  then have tr: "trim (customCode d) = customCode d" by (simp add: trim_def dw)
  have "to_usv (customCode d) = customCode d"
    using cl nsur by (intro to_usv_no_surrogates) blast
  then show ?thesis using ne tr by (simp add: build_form_data_def)
qed

text \<open>
  C9. The form data is the \<open>url\<close> field followed by a \<open>customCode\<close> field exactly when
  the custom code has a code unit that is not whitespace. The \<open>customCode\<close> value is the
  custom code with the whitespace at both ends removed: what is cut off on either side
  is whitespace, and what is kept neither starts nor ends with whitespace. Each value is
  stored as \<open>append\<close> converts it, code unit by code unit the string itself except that
  an unpaired surrogate becomes U+FFFD; so the \<open>url\<close> value is the URL as given only when
  the URL has no unpaired surrogate. For validated input the custom code is always
  sent, unchanged. This form data is what \<open>onSubmit\<close> passes to \<open>shortenUrl\<close>, its first
  call.
\<close>

theorem build_form_data_fields:
  "build_form_data d =
     (''url'', to_usv (url d)) #
     (if \<exists>c\<in>set (customCode d). \<not> is_js_space c
      then [(''customCode'', to_usv (trim (customCode d)))] else []) \<and>
   (\<exists>l r. customCode d = l @ trim (customCode d) @ r \<and>
          list_all is_js_space l \<and> list_all is_js_space r \<and>
          (trim (customCode d) = [] \<or>
           (\<not> is_js_space (hd (trim (customCode d))) \<and>
            \<not> is_js_space (last (trim (customCode d)))))) \<and>
   length (to_usv s) = length s \<and>
   (i < length s \<longrightarrow> to_usv s ! i = (if unpaired_surrogate s i then 0xFFFD else s ! i)) \<and>
   (urlSchema is_url inp = Inr d \<longrightarrow>
      build_form_data d = [(''url'', to_usv (url d)), (''customCode'', customCode d)]) \<and>
   (\<exists>rest. snd (onSubmit e d st) = CallShortenUrl (build_form_data d) # rest)"
proof -
  have "customCode d \<noteq> [] \<and> trim (customCode d) \<noteq> [] \<longleftrightarrow>
        (\<exists>c\<in>set (customCode d). \<not> is_js_space c)"
    unfolding trim_Nil_iff by auto
  then have 1: "build_form_data d =
     (''url'', to_usv (url d)) #
     (if \<exists>c\<in>set (customCode d). \<not> is_js_space c
      then [(''customCode'', to_usv (trim (customCode d)))] else [])"
    unfolding build_form_data_def by simp
  have 2: "\<exists>rest. snd (onSubmit e d st) = CallShortenUrl (build_form_data d) # rest"
    by (cases "shortenUrl e (build_form_data d)") (simp_all add: onSubmit_Resolves onSubmit_Throws)
  have 3: "urlSchema is_url inp = Inr d \<longrightarrow>
      build_form_data d = [(''url'', to_usv (url d)), (''customCode'', customCode d)]"
    using validated_form_data by blast
  have 4: "i < length s \<longrightarrow> to_usv s ! i = (if unpaired_surrogate s i then 0xFFFD else s ! i)"
    using to_usv_nth by blast
  show ?thesis
    using 1 2 3 4 trim_decomposition[of "customCode d"] length_to_usv[of s]
    by (intro conjI) assumption+
qed

theorem build_form_data_fields_witness:
  "build_form_data \<lparr>url = js ''https://example.com/a'', customCode = js ''my-code''\<rparr> =
     [(''url'', js ''https://example.com/a''), (''customCode'', js ''my-code'')] \<and>
   build_form_data \<lparr>url = js ''https://example.com/ a'', customCode = js '' my-code  ''\<rparr> =
     [(''url'', js ''https://example.com/ a''), (''customCode'', js ''my-code'')] \<and>
   build_form_data \<lparr>url = js ''https://example.com/ a'',
                     customCode = [0x0009] @ js ''x y'' @ [0x00A0, 0x2028]\<rparr> =
     [(''url'', js ''https://example.com/ a''), (''customCode'', js ''x y'')] \<and>
   build_form_data \<lparr>url = js ''https://example.com/ a'', customCode = js ''  ''\<rparr> =
     [(''url'', js ''https://example.com/ a'')]"
proof -
  let ?isu = "\<lambda>u::jsstring. take 8 u = js ''https://''"
  let ?d0 = "\<lparr>url = js ''https://example.com/a'', customCode = js ''my-code''\<rparr>"
  let ?inp0 = "\<lparr>url = JString (js ''https://example.com/a''), customCode = JString (js ''my-code'')\<rparr>"
  have v: "urlSchema ?isu ?inp0 = Inr ?d0"
    by (simp add: urlSchema_Inr customCode_regex_iff js_def is_code_char_def)
  have u0: "to_usv (js ''https://example.com/a'') = js ''https://example.com/a''"
    by (simp add: js_def is_high_surrogate_def is_low_surrogate_def)
  have u1: "to_usv (js ''https://example.com/ a'') = js ''https://example.com/ a''"
    by (simp add: js_def is_high_surrogate_def is_low_surrogate_def)
  have a: "build_form_data ?d0 =
     [(''url'', js ''https://example.com/a''), (''customCode'', js ''my-code'')]"
    using build_form_data_fields[where d = ?d0 and is_url = ?isu and inp = ?inp0,
        THEN conjunct2, THEN conjunct2, THEN conjunct2, THEN conjunct2, THEN conjunct1] v u0
    by simp
  have 1: "\<exists>c\<in>set (js '' my-code  ''). \<not> is_js_space c"
    by (simp add: js_def is_js_space_def)
  have 2: "\<not> (\<exists>c\<in>set (js ''  ''). \<not> is_js_space c)"
    by (simp add: js_def is_js_space_def)
  have 3: "to_usv (trim (js '' my-code  '')) = js ''my-code''"
    by (simp add: js_def trim_def is_js_space_def is_high_surrogate_def is_low_surrogate_def)
  have 4: "\<exists>c\<in>set ([0x0009] @ js ''x y'' @ [0x00A0, 0x2028]). \<not> is_js_space c"
    by (simp add: js_def is_js_space_def)
  have 5: "to_usv (trim ([0x0009] @ js ''x y'' @ [0x00A0, 0x2028])) = js ''x y''"
    by (simp add: js_def trim_def is_js_space_def is_high_surrogate_def is_low_surrogate_def)
  have b: "build_form_data \<lparr>url = js ''https://example.com/ a'', customCode = js '' my-code  ''\<rparr> =
     [(''url'', js ''https://example.com/ a''), (''customCode'', js ''my-code'')]"
    using build_form_data_fields[of "\<lparr>url = js ''https://example.com/ a'', customCode = js '' my-code  ''\<rparr>", THEN conjunct1]
      1 3 u1 by simp
  have c: "build_form_data \<lparr>url = js ''https://example.com/ a'',
                     customCode = [0x0009] @ js ''x y'' @ [0x00A0, 0x2028]\<rparr> =
     [(''url'', js ''https://example.com/ a''), (''customCode'', js ''x y'')]"
    using build_form_data_fields[of "\<lparr>url = js ''https://example.com/ a'',
                     customCode = [0x0009] @ js ''x y'' @ [0x00A0, 0x2028]\<rparr>", THEN conjunct1]
      4 5 u1 by simp
  have d: "build_form_data \<lparr>url = js ''https://example.com/ a'', customCode = js ''  ''\<rparr> =
     [(''url'', js ''https://example.com/ a'')]"
    using build_form_data_fields[of "\<lparr>url = js ''https://example.com/ a'', customCode = js ''  ''\<rparr>", THEN conjunct1]
      2 u1 by simp
  show ?thesis using a b c d by (intro conjI)
qed

text \<open>
  The URL is not always sent as given: a URL that passes validation and holds a lone
  high surrogate reaches \<open>shortenUrl\<close> with U+FFFD in its place.
\<close>

theorem build_form_data_verbatim_counterexample:
  "urlSchema (\<lambda>u. take 8 u = js ''https://'')
     \<lparr>url = JString (js ''https://example.com/'' @ [0xD800]),
      customCode = JString (js ''abc123'')\<rparr> =
     Inr \<lparr>url = js ''https://example.com/'' @ [0xD800], customCode = js ''abc123''\<rparr> \<and>
   build_form_data \<lparr>url = js ''https://example.com/'' @ [0xD800], customCode = js ''abc123''\<rparr> =
     [(''url'', js ''https://example.com/'' @ [0xFFFD]), (''customCode'', js ''abc123'')] \<and>
   js ''https://example.com/'' @ [0xFFFD] \<noteq> js ''https://example.com/'' @ [0xD800 :: 16 word]"
proof -
  have 1: "urlSchema (\<lambda>u. take 8 u = js ''https://'')
     \<lparr>url = JString (js ''https://example.com/'' @ [0xD800]),
      customCode = JString (js ''abc123'')\<rparr> =
     Inr \<lparr>url = js ''https://example.com/'' @ [0xD800], customCode = js ''abc123''\<rparr>"
    by (simp add: urlSchema_Inr customCode_regex_iff js_def is_code_char_def)
  have 2: "to_usv (js ''https://example.com/'' @ [0xD800]) = js ''https://example.com/'' @ [0xFFFD]"
    by (simp add: js_def is_high_surrogate_def is_low_surrogate_def)
  have 3: "build_form_data \<lparr>url = js ''https://example.com/'' @ [0xD800], customCode = js ''abc123''\<rparr> =
     [(''url'', js ''https://example.com/'' @ [0xFFFD]), (''customCode'', js ''abc123'')]"
    unfolding validated_form_data[OF 1] using 2 by simp
  have 4: "js ''https://example.com/'' @ [0xFFFD] \<noteq> js ''https://example.com/'' @ [0xD800 :: 16 word]"
    by simp
  show ?thesis using 1 3 4 by (intro conjI)
qed

lemma reset_state_fields:
  "error (reset_state st) = None" "shortUrl (reset_state st) = None"
  "shortCode (reset_state st) = None" "isLoading (reset_state st) = True"
  "isQrCodeModalOpen (reset_state st) = isQrCodeModalOpen st"
  by (simp_all add: reset_state_def)

lemma reset_state_idem: "reset_state (reset_state st) = reset_state st"
  by (simp add: reset_state_def)

lemma reset_state_cong:
  "isQrCodeModalOpen st = isQrCodeModalOpen st' \<Longrightarrow> reset_state st = reset_state st'"
  by (cases st; cases st') (simp add: reset_state_def)

lemma onSubmit_from_reset: "onSubmit e d st = onSubmit e d (reset_state st)"
  by (simp add: onSubmit_def Let_def reset_state_idem)

lemma onSubmit_isLoading: "isLoading (fst (onSubmit e d st)) = False"
  by (cases "shortenUrl e (build_form_data d)") (simp_all add: onSubmit_Resolves onSubmit_Throws)

text \<open>
  C10. A run of \<open>onSubmit\<close> starts from the cleared state: \<open>error\<close>, \<open>shortUrl\<close> and
  \<open>shortCode\<close> are null after the first four setters, and the run's result is the same
  from any earlier state (only the QR-modal flag, which \<open>onSubmit\<close> never touches, is
  carried over). When \<open>shortenUrl\<close> throws, \<open>error\<close> is the fixed retry message and
  \<open>shortUrl\<close> and \<open>shortCode\<close> are null. After every run \<open>isLoading\<close> is false.
\<close>

theorem onSubmit_no_stale_state:
  "error (reset_state st) = None \<and> shortUrl (reset_state st) = None \<and>
   shortCode (reset_state st) = None \<and>
   onSubmit e d st = onSubmit e d (reset_state st) \<and>
   (isQrCodeModalOpen st = isQrCodeModalOpen st' \<longrightarrow> onSubmit e d st = onSubmit e d st') \<and>
   (shortenUrl e (build_form_data d) = Throws \<longrightarrow>
      error (fst (onSubmit e d st)) = Some (js ''An error occurred. Please try again.'') \<and>
      shortUrl (fst (onSubmit e d st)) = None \<and>
      shortCode (fst (onSubmit e d st)) = None) \<and>
   isLoading (fst (onSubmit e d st)) = False"
proof -
  have "onSubmit e d st = onSubmit e d st'" if "isQrCodeModalOpen st = isQrCodeModalOpen st'"
    using onSubmit_from_reset[of e d st] onSubmit_from_reset[of e d st'] reset_state_cong[OF that]
    by simp
  moreover have "error (fst (onSubmit e d st)) = Some (js ''An error occurred. Please try again.'') \<and>
      shortUrl (fst (onSubmit e d st)) = None \<and> shortCode (fst (onSubmit e d st)) = None"
    if "shortenUrl e (build_form_data d) = Throws"
    using onSubmit_Throws[OF that, of st] by (simp add: reset_state_fields)
  ultimately show ?thesis
    using onSubmit_from_reset[of e d st] onSubmit_isLoading[of e d st]
    by (simp add: reset_state_fields)
qed

theorem onSubmit_no_stale_state_witness:
  "fst (onSubmit \<lparr>shortenUrl = (\<lambda>fd. Throws), session_user = True, pathname = js ''/dashboard''\<rparr>
      \<lparr>url = js ''https://example.com'', customCode = js ''abc123''\<rparr>
      \<lparr>shortUrl = Some (js ''https://sho.rt/r/old''), shortCode = Some (js ''old''),
       isLoading = False, error = None, isQrCodeModalOpen = False\<rparr>) =
   \<lparr>shortUrl = None, shortCode = None, isLoading = False,
    error = Some (js ''An error occurred. Please try again.''), isQrCodeModalOpen = False\<rparr>"
proof -
  let ?e = "\<lparr>shortenUrl = (\<lambda>fd. Throws), session_user = True, pathname = js ''/dashboard''\<rparr>"
  let ?d = "\<lparr>url = js ''https://example.com'', customCode = js ''abc123''\<rparr>"
  let ?st = "\<lparr>shortUrl = Some (js ''https://sho.rt/r/old''), shortCode = Some (js ''old''),
       isLoading = False, error = None, isQrCodeModalOpen = False\<rparr>"
  have h: "shortenUrl ?e (build_form_data ?d) = Throws" by simp
  have q: "isQrCodeModalOpen (fst (onSubmit ?e ?d ?st)) = False"
    by (simp add: onSubmit_Throws reset_state_def)
  from onSubmit_no_stale_state[of ?st ?e ?d ?st] h
  have "error (fst (onSubmit ?e ?d ?st)) = Some (js ''An error occurred. Please try again.'')"
    "shortUrl (fst (onSubmit ?e ?d ?st)) = None" "shortCode (fst (onSubmit ?e ?d ?st)) = None"
    "isLoading (fst (onSubmit ?e ?d ?st)) = False"
    by blast+
  with q show ?thesis by (cases "fst (onSubmit ?e ?d ?st)") simp
qed

section \<open>Where the form departs from what it says\<close>

text \<open>
  C2. The schema has no optional custom code: with a valid URL and the form's default
  \<open>customCode = ""\<close> validation fails on the pattern (its \<open>+\<close> needs one character), with
  \<open>customCode\<close> absent it fails on the type, and \<open>handleSubmit\<close> makes no call in either
  case. The field's placeholder reads "Custom code (optional)" and \<open>onSubmit\<close> handles an
  empty custom code, which it can never receive.
\<close>

theorem urlSchema_rejects_empty_customCode:
  "urlSchema is_url \<lparr>url = JString u, customCode = JString []\<rparr> =
     Inl (issues_of (url_field is_url (JString u)) @
          [Issue ''customCode'' invalid_string
             (Some ''Custom code must be alphanumeric or hyphen'')]) \<and>
   urlSchema is_url \<lparr>url = JString u, customCode = JUndefined\<rparr> =
     Inl (issues_of (url_field is_url (JString u)) @
          [Issue ''customCode'' invalid_type None]) \<and>
   effects (handleSubmit is_url e \<lparr>url = JString u, customCode = JString []\<rparr> st) = [] \<and>
   effects (handleSubmit is_url e \<lparr>url = JString u, customCode = JUndefined\<rparr> st) = []"
proof -
  have 1: "customCode_field (JString []) =
      Inl [Issue ''customCode'' invalid_string (Some ''Custom code must be alphanumeric or hyphen'')]"
    by (simp add: customCode_field_def customCode_regex_def)
  have 2: "customCode_field JUndefined = Inl [Issue ''customCode'' invalid_type None]"
    by (simp add: customCode_field_def)
  show ?thesis
    by (cases "url_field is_url (JString u)")
       (simp_all add: urlSchema_def handleSubmit_def 1 2 issues_of_def)
qed

theorem urlSchema_rejects_empty_customCode_witness:
  "urlSchema (\<lambda>u. take 8 u = js ''https://'')
     \<lparr>url = JString (js ''https://example.com''), customCode = JString []\<rparr> =
   Inl [Issue ''customCode'' invalid_string (Some ''Custom code must be alphanumeric or hyphen'')]"
  using urlSchema_rejects_empty_customCode[of "\<lambda>u. take 8 u = js ''https://''"
      "js ''https://example.com''"]
  by (simp add: js_def url_field_def issues_of_def)

text \<open>
  C4. A response with \<open>success = false\<close> is dropped: whatever error string it carries,
  \<open>onSubmit\<close> ends in the cleared state with \<open>isLoading\<close> false, so \<open>error\<close>, \<open>shortUrl\<close>
  and \<open>shortCode\<close> are all null and nothing is logged. Only a thrown exception reaches
  the \<open>error\<close> state.
\<close>

theorem onSubmit_drops_failure_response:
  assumes "shortenUrl e (build_form_data d) =
             Resolves \<lparr>success = False, data = dt, resp_error = Some msg\<rparr>"
  shows "fst (onSubmit e d st) = reset_state st\<lparr>isLoading := False\<rparr> \<and>
         error (fst (onSubmit e d st)) = None \<and>
         shortUrl (fst (onSubmit e d st)) = None \<and>
         shortCode (fst (onSubmit e d st)) = None \<and>
         ConsoleError \<notin> set (snd (onSubmit e d st))"
  using onSubmit_Resolves[OF assms, of st]
  by (simp add: apply_response_failure reset_state_fields)

theorem onSubmit_drops_failure_response_witness:
  "fst (onSubmit
      \<lparr>shortenUrl = (\<lambda>fd. Resolves \<lparr>success = False, data = None,
           resp_error = Some (js ''Custom code already in use'')\<rparr>),
        session_user = False, pathname = js ''/''\<rparr>
      \<lparr>url = js ''https://example.com'', customCode = js ''abc123''\<rparr>
      initial_state) = initial_state"
proof -
  let ?e = "\<lparr>shortenUrl = (\<lambda>fd. Resolves \<lparr>success = False, data = None,
           resp_error = Some (js ''Custom code already in use'')\<rparr>),
        session_user = False, pathname = js ''/''\<rparr>"
  let ?d = "\<lparr>url = js ''https://example.com'', customCode = js ''abc123''\<rparr>"
  have h: "shortenUrl ?e (build_form_data ?d) = Resolves \<lparr>success = False, data = None,
           resp_error = Some (js ''Custom code already in use'')\<rparr>" by simp
  show ?thesis
    using onSubmit_drops_failure_response[OF h, of initial_state]
    by (simp add: reset_state_def initial_state_def)
qed

section \<open>The shortening service\<close>

subsection \<open>Store\<close>

lemma find_map_same_code:
  assumes "\<And>m. mapping_shortCode (f m) = mapping_shortCode m"
  shows "find (\<lambda>m. mapping_shortCode m = c) (map f xs) =
         map_option f (find (\<lambda>m. mapping_shortCode m = c) xs)"
  by (induction xs) (simp_all add: assms)

lemma findByCode_incrementClicks:
  "findByCode (incrementClicks now c s) c' =
     map_option (\<lambda>m. if c' = c then m\<lparr>clicks := clicks m + 1, updatedAt := now\<rparr> else m)
       (findByCode s c')"
proof -
  let ?f = "\<lambda>m. if mapping_shortCode m = c
                 then m\<lparr>clicks := clicks m + 1, updatedAt := now\<rparr> else m"
  have "findByCode (incrementClicks now c s) c' = map_option ?f (findByCode s c')"
    unfolding findByCode_def incrementClicks_def
    by (simp add: find_map_same_code)
  moreover have "map_option ?f (findByCode s c') =
     map_option (\<lambda>m. if c' = c then m\<lparr>clicks := clicks m + 1, updatedAt := now\<rparr> else m)
       (findByCode s c')"
  proof (cases "findByCode s c'")
    case None then show ?thesis by simp
  next
    case (Some m)
    then have "mapping_shortCode m = c'"
      unfolding findByCode_def by (auto simp: find_Some_iff)
    with Some show ?thesis by auto
  qed
  ultimately show ?thesis by simp
qed

lemma findByCode_None_iff: "findByCode s c = None \<longleftrightarrow> c \<notin> mapping_shortCode ` set (rows s)"
  unfolding findByCode_def by (auto simp: find_None_iff)

lemma createMapping_conflict:
  "findByCode s c = Some m \<Longrightarrow> createMapping now u c s = (Inl ConflictError, s)"
  by (simp add: createMapping_def)

lemma createMapping_fresh:
  "findByCode s c = None \<Longrightarrow>
     createMapping now u c s =
       (Inr \<lparr>mapping_id = next_id s, originalUrl = u, mapping_shortCode = c,
              createdAt = now, updatedAt = now, clicks = 0\<rparr>,
        s\<lparr>rows := rows s @ [\<lparr>mapping_id = next_id s, originalUrl = u, mapping_shortCode = c,
              createdAt = now, updatedAt = now, clicks = 0\<rparr>],
           next_id := Suc (next_id s)\<rparr>)"
  by (simp add: createMapping_def Let_def)

subsection \<open>Allocator\<close>

lemma persist_conflict:
  "findByCode s c = Some m \<Longrightarrow> persist cfg now u c s = (Inl ConflictError, s)"
  by (simp add: persist_def createMapping_conflict)

lemma persist_fresh:
  "findByCode s c = None \<Longrightarrow>
     persist cfg now u c s =
       (Inr (Allocation c (base_origin cfg @ path_prefix cfg @ c)),
        s\<lparr>rows := rows s @ [\<lparr>mapping_id = next_id s, originalUrl = u, mapping_shortCode = c,
              createdAt = now, updatedAt = now, clicks = 0\<rparr>],
           next_id := Suc (next_id s)\<rparr>)"
  by (simp add: persist_def createMapping_fresh)

lemma persist_cases:
  "persist cfg now u c s = (Inl ConflictError, s) \<or>
   persist cfg now u c s =
       (Inr (Allocation c (base_origin cfg @ path_prefix cfg @ c)),
        s\<lparr>rows := rows s @ [\<lparr>mapping_id = next_id s, originalUrl = u, mapping_shortCode = c,
              createdAt = now, updatedAt = now, clicks = 0\<rparr>],
           next_id := Suc (next_id s)\<rparr>) \<and> findByCode s c = None"
  by (cases "findByCode s c") (simp_all add: persist_fresh persist_conflict)

lemma generate_fresh: "generate gen s i n = Some c \<Longrightarrow> findByCode s c = None"
  by (induction gen s i n rule: generate.induct) (auto split: if_splits)

text \<open>Every outcome of an allocation: an error with the Store untouched, or one new row.\<close>

lemma allocate_cases:
  "(\<exists>err. allocate cfg is_url now gen u custom s = (Inl err, s)) \<or>
   (\<exists>c. allocate cfg is_url now gen u custom s =
       (Inr (Allocation c (base_origin cfg @ path_prefix cfg @ c)),
        s\<lparr>rows := rows s @ [\<lparr>mapping_id = next_id s, originalUrl = u, mapping_shortCode = c,
              createdAt = now, updatedAt = now, clicks = 0\<rparr>],
           next_id := Suc (next_id s)\<rparr>) \<and> findByCode s c = None \<and> is_url u)"
proof (cases "is_url u")
  case False
  then show ?thesis by (simp add: allocate_def)
next
  case True
  show ?thesis
  proof (cases custom)
    case (Some c)
    then show ?thesis using True persist_cases[of cfg now u c s]
      by (cases "valid_custom_code c") (auto simp: allocate_def)
  next
    case None
    show ?thesis
    proof (cases "generate gen s 0 max_attempts")
      case None
      with \<open>custom = None\<close> True show ?thesis by (simp add: allocate_def)
    next
      case (Some c)
      then have "findByCode s c = None" by (rule generate_fresh)
      with Some \<open>custom = None\<close> True show ?thesis
        by (simp add: allocate_def persist_fresh)
    qed
  qed
qed

lemma find_snoc:
  "find P (xs @ [x]) = (case find P xs of Some y \<Rightarrow> Some y | None \<Rightarrow> if P x then Some x else None)"
  by (induction xs) simp_all

lemma findByCode_append_new:
  "findByCode s c = None \<Longrightarrow> mapping_shortCode m = c \<Longrightarrow>
     findByCode (s\<lparr>rows := rows s @ [m], next_id := n\<rparr>) c = Some m"
  unfolding findByCode_def by (simp add: find_snoc)


text \<open>
  C5. Round trip: when an allocation for URL \<open>u\<close> succeeds, resolving the code it
  returned, on the Store it left, yields exactly \<open>u\<close> (at the boundary, a 302 to \<open>u\<close>).
\<close>

theorem allocate_resolve_roundtrip:
  assumes "allocate cfg is_url now gen u custom s = (Inr a, s')"
  shows "fst (resolve now' (alloc_code a) s') = Inr u \<and>
         fst (redirect_route now' (alloc_code a) s') = \<lparr>status = 302, location = Some u\<rparr>"
proof -
  let ?m = "\<lambda>c. \<lparr>mapping_id = next_id s, originalUrl = u, mapping_shortCode = c,
              createdAt = now, updatedAt = now, clicks = 0\<rparr>"
  from allocate_cases[of cfg is_url now gen u custom s] assms
  obtain c where a: "a = Allocation c (base_origin cfg @ path_prefix cfg @ c)"
    and s': "s' = s\<lparr>rows := rows s @ [?m c], next_id := Suc (next_id s)\<rparr>"
    and fresh: "findByCode s c = None"
    by auto
  have "findByCode s' c = Some (?m c)"
    unfolding s' using fresh by (rule findByCode_append_new) simp
  then have "resolve now' c s' = (Inr u, incrementClicks now' c s')"
    by (simp add: resolve_def)
  then show ?thesis using a by (simp add: redirect_route_def)
qed

lemma allocate_generated:
  assumes "is_url u" "findByCode s (gen 0) = None"
  shows "allocate cfg is_url now gen u None s =
           (Inr (Allocation (gen 0) (base_origin cfg @ path_prefix cfg @ gen 0)),
            s\<lparr>rows := rows s @ [\<lparr>mapping_id = next_id s, originalUrl = u,
                   mapping_shortCode = gen 0, createdAt = now, updatedAt = now, clicks = 0\<rparr>],
               next_id := Suc (next_id s)\<rparr>)"
proof -
  have "generate gen s 0 max_attempts = Some (gen 0)"
    unfolding max_attempts_def using assms(2) by (simp add: eval_nat_numeral)
  then show ?thesis using assms by (simp add: allocate_def persist_fresh)
qed

theorem allocate_resolve_roundtrip_witness:
  "fst (allocate \<lparr>base_origin = js ''https://sho.rt'', path_prefix = js ''/r/''\<rparr>
          (\<lambda>u. take 8 u = js ''https://'') 10 (\<lambda>i. js ''a1B2c3'')
          (js ''https://example.com/path?q=1'') None empty_store) =
     Inr (Allocation (js ''a1B2c3'') (js ''https://sho.rt/r/a1B2c3'')) \<and>
   fst (resolve 20 (js ''a1B2c3'')
     (snd (allocate \<lparr>base_origin = js ''https://sho.rt'', path_prefix = js ''/r/''\<rparr>
          (\<lambda>u. take 8 u = js ''https://'') 10 (\<lambda>i. js ''a1B2c3'')
          (js ''https://example.com/path?q=1'') None empty_store))) =
     Inr (js ''https://example.com/path?q=1'')"
proof -
  let ?cfg = "\<lparr>base_origin = js ''https://sho.rt'', path_prefix = js ''/r/''\<rparr>"
  let ?isu = "\<lambda>u::jsstring. take 8 u = js ''https://''"
  let ?gen = "\<lambda>i::nat. js ''a1B2c3''"
  let ?u = "js ''https://example.com/path?q=1''"
  let ?r = "allocate ?cfg ?isu 10 ?gen ?u None empty_store"
  have v: "?isu ?u" by (simp add: js_def)
  have f: "findByCode empty_store (?gen 0) = None"
    by (simp add: findByCode_def empty_store_def)
  have al: "fst ?r = Inr (Allocation (js ''a1B2c3'') (js ''https://sho.rt/r/a1B2c3''))"
    unfolding allocate_generated[of ?isu ?u empty_store ?gen, OF v f] by (simp add: js_def)
  then have "?r = (Inr (Allocation (js ''a1B2c3'') (js ''https://sho.rt/r/a1B2c3'')), snd ?r)"
    by (metis prod.collapse)
  from allocate_resolve_roundtrip[OF this, of 20]
  have "fst (resolve 20 (js ''a1B2c3'') (snd ?r)) = Inr ?u" by simp
  with al show ?thesis by simp
qed

text \<open>
  C7. When the Store already holds a mapping \<open>m\<close> under code \<open>c\<close>, every request that
  supplies \<open>c\<close> as its custom code fails and leaves the Store exactly as it was, so \<open>m\<close>
  is still what \<open>c\<close> resolves to, with every field as before. The failure is
  \<open>ConflictError\<close> when the request is well-formed (valid URL, code passing the format
  check); otherwise validation, which comes first, fails it with \<open>ValidationError\<close>.
\<close>

theorem allocate_conflict_unchanged:
  assumes "findByCode s c = Some m"
  shows "(\<exists>err. allocate cfg is_url now gen u (Some c) s = (Inl err, s)) \<and>
         findByCode (snd (allocate cfg is_url now gen u (Some c) s)) c = Some m \<and>
         (is_url u \<and> valid_custom_code c \<longrightarrow>
            allocate cfg is_url now gen u (Some c) s = (Inl ConflictError, s)) \<and>
         (\<not> (is_url u \<and> valid_custom_code c) \<longrightarrow>
            allocate cfg is_url now gen u (Some c) s = (Inl ValidationError, s))"
proof -
  have 1: "allocate cfg is_url now gen u (Some c) s = (Inl ConflictError, s)"
    if "is_url u" "valid_custom_code c"
    using that assms by (simp add: allocate_def persist_conflict)
  have 2: "allocate cfg is_url now gen u (Some c) s = (Inl ValidationError, s)"
    if "\<not> (is_url u \<and> valid_custom_code c)"
    using that by (auto simp: allocate_def)
  have 3: "\<exists>err. allocate cfg is_url now gen u (Some c) s = (Inl err, s)"
    using 1 2 by (cases "is_url u \<and> valid_custom_code c") blast+
  then have 4: "findByCode (snd (allocate cfg is_url now gen u (Some c) s)) c = Some m"
    using assms by auto
  show ?thesis using 1 2 3 4 by blast
qed

theorem allocate_conflict_unchanged_witness:
  "allocate \<lparr>base_origin = js ''https://sho.rt'', path_prefix = js ''/r/''\<rparr>
      (\<lambda>u. take 8 u = js ''https://'') 30 (\<lambda>i. js ''zzzzzz'')
      (js ''https://other.example'') (Some (js ''abc123''))
      \<lparr>rows = [\<lparr>mapping_id = 1, originalUrl = js ''https://example.com/path?q=1'',
                 mapping_shortCode = js ''abc123'', createdAt = 10, updatedAt = 20,
                 clicks = 7\<rparr>], next_id = 2\<rparr> =
   (Inl ConflictError,
      \<lparr>rows = [\<lparr>mapping_id = 1, originalUrl = js ''https://example.com/path?q=1'',
                 mapping_shortCode = js ''abc123'', createdAt = 10, updatedAt = 20,
                 clicks = 7\<rparr>], next_id = 2\<rparr>)"
proof -
  let ?m = "\<lparr>mapping_id = 1, originalUrl = js ''https://example.com/path?q=1'',
                 mapping_shortCode = js ''abc123'', createdAt = 10, updatedAt = 20,
                 clicks = 7\<rparr>"
  let ?s = "\<lparr>rows = [?m], next_id = 2\<rparr>"
  have f: "findByCode ?s (js ''abc123'') = Some ?m" by (simp add: findByCode_def)
  have v: "take 8 (js ''https://other.example'') = js ''https://'' \<and> valid_custom_code (js ''abc123'')"
    by (simp add: js_def valid_custom_code_def is_code_char_def)
  show ?thesis
    using allocate_conflict_unchanged[OF f, of _ "\<lambda>u. take 8 u = js ''https://''" _ _
        "js ''https://other.example''"] v
    by blast
qed

text \<open>
  The failure is not always \<open>ConflictError\<close>: with the code \<open>abc123\<close> taken, a request
  for it whose URL is not a URL fails validation first.
\<close>

theorem allocate_conflict_counterexample:
  "findByCode
      \<lparr>rows = [\<lparr>mapping_id = 1, originalUrl = js ''https://example.com/path?q=1'',
                 mapping_shortCode = js ''abc123'', createdAt = 10, updatedAt = 20,
                 clicks = 7\<rparr>], next_id = 2\<rparr> (js ''abc123'') =
     Some \<lparr>mapping_id = 1, originalUrl = js ''https://example.com/path?q=1'',
                 mapping_shortCode = js ''abc123'', createdAt = 10, updatedAt = 20,
                 clicks = 7\<rparr> \<and>
   fst (allocate \<lparr>base_origin = js ''https://sho.rt'', path_prefix = js ''/r/''\<rparr>
      (\<lambda>u. take 8 u = js ''https://'') 30 (\<lambda>i. js ''zzzzzz'')
      (js ''not a url'') (Some (js ''abc123''))
      \<lparr>rows = [\<lparr>mapping_id = 1, originalUrl = js ''https://example.com/path?q=1'',
                 mapping_shortCode = js ''abc123'', createdAt = 10, updatedAt = 20,
                 clicks = 7\<rparr>], next_id = 2\<rparr>) = Inl ValidationError \<and>
   fst (allocate \<lparr>base_origin = js ''https://sho.rt'', path_prefix = js ''/r/''\<rparr>
      (\<lambda>u. take 8 u = js ''https://'') 30 (\<lambda>i. js ''zzzzzz'')
      (js ''not a url'') (Some (js ''abc123''))
      \<lparr>rows = [\<lparr>mapping_id = 1, originalUrl = js ''https://example.com/path?q=1'',
                 mapping_shortCode = js ''abc123'', createdAt = 10, updatedAt = 20,
                 clicks = 7\<rparr>], next_id = 2\<rparr>) \<noteq> Inl ConflictError"
proof -
  have "take 8 (js ''not a url'') \<noteq> js ''https://''" by (simp add: js_def)
  then show ?thesis by (simp add: findByCode_def allocate_def)
qed

text \<open>
  C8. Resolving a code that is not in the Store fails with \<open>NotFoundError\<close>, which is
  status 404 at the boundary, and the Store after the operation is the Store before it.
\<close>

theorem resolve_unknown_unchanged:
  assumes "findByCode s c = None"
  shows "resolve now c s = (Inl NotFoundError, s) \<and>
         redirect_route now c s = (\<lparr>status = 404, location = None\<rparr>, s)"
  using assms by (simp add: resolve_def redirect_route_def)

theorem resolve_unknown_unchanged_witness:
  "resolve 30 (js ''nope'')
      \<lparr>rows = [\<lparr>mapping_id = 1, originalUrl = js ''https://example.com/path?q=1'',
                 mapping_shortCode = js ''abc123'', createdAt = 10, updatedAt = 20,
                 clicks = 7\<rparr>], next_id = 2\<rparr> =
   (Inl NotFoundError,
      \<lparr>rows = [\<lparr>mapping_id = 1, originalUrl = js ''https://example.com/path?q=1'',
                 mapping_shortCode = js ''abc123'', createdAt = 10, updatedAt = 20,
                 clicks = 7\<rparr>], next_id = 2\<rparr>)"
proof -
  let ?m = "\<lparr>mapping_id = 1, originalUrl = js ''https://example.com/path?q=1'',
                 mapping_shortCode = js ''abc123'', createdAt = 10, updatedAt = 20,
                 clicks = 7\<rparr>"
  let ?s = "\<lparr>rows = [?m], next_id = 2\<rparr>"
  have f: "findByCode ?s (js ''nope'') = None" by (simp add: findByCode_def js_def)
  show ?thesis using resolve_unknown_unchanged[OF f, of 30] by simp
qed

subsection \<open>Click accounting\<close>

lemma run_Nil: "run cfg is_url [] s = s"
  by (simp add: run_def)

lemma run_Cons: "run cfg is_url (r # rs) s = run cfg is_url rs (serve cfg is_url r s)"
  by (simp add: run_def)

lemma rows_allocate:
  "rows (snd (allocate cfg is_url now gen u custom s)) = rows s \<or>
   (\<exists>m. rows (snd (allocate cfg is_url now gen u custom s)) = rows s @ [m] \<and> clicks m = 0)"
  using allocate_cases[of cfg is_url now gen u custom s] by auto

lemma rows_resolve:
  "rows (snd (resolve now c s)) =
     (if findByCode s c = None then rows s
      else map (\<lambda>m. if mapping_shortCode m = c
                     then m\<lparr>clicks := clicks m + 1, updatedAt := now\<rparr> else m) (rows s))"
  by (cases "findByCode s c") (simp_all add: resolve_def incrementClicks_def)

text \<open>One request, seen from the row at position \<open>i\<close>.\<close>

lemma serve_row:
  assumes "i < length (rows s)"
  shows "i < length (rows (serve cfg is_url r s)) \<and>
         clicks (rows (serve cfg is_url r s) ! i) =
           clicks (rows s ! i) + (if is_visit (mapping_shortCode (rows s ! i)) r then 1 else 0) \<and>
         mapping_shortCode (rows (serve cfg is_url r s) ! i) = mapping_shortCode (rows s ! i) \<and>
         originalUrl (rows (serve cfg is_url r s) ! i) = originalUrl (rows s ! i)"
proof (cases r)
  case (Shorten now gen u custom)
  show ?thesis
    using rows_allocate[of cfg is_url now gen u custom s] assms
    unfolding Shorten by (auto simp: nth_append)
next
  case (Visit now c)
  show ?thesis
  proof (cases "findByCode s c")
    case None
    have "rows s ! i \<in> set (rows s)" using assms by simp
    then have "mapping_shortCode (rows s ! i) \<noteq> c"
      using None unfolding findByCode_None_iff by blast
    then show ?thesis using assms None unfolding Visit by (simp add: rows_resolve)
  next
    case (Some m)
    then show ?thesis using assms unfolding Visit by (simp add: rows_resolve)
  qed
qed

lemma serve_nonneg:
  assumes "\<forall>m\<in>set (rows s). 0 \<le> clicks m"
  shows "\<forall>m\<in>set (rows (serve cfg is_url r s)). 0 \<le> clicks m"
proof (cases r)
  case (Shorten now gen u custom)
  show ?thesis
    using rows_allocate[of cfg is_url now gen u custom s] assms
    unfolding Shorten by auto
next
  case (Visit now c)
  show ?thesis using assms unfolding Visit by (auto simp: rows_resolve)
qed

lemma run_nonneg:
  "\<forall>m\<in>set (rows s). 0 \<le> clicks m \<Longrightarrow> \<forall>m\<in>set (rows (run cfg is_url rs s)). 0 \<le> clicks m"
proof (induction rs arbitrary: s)
  case Nil
  then show ?case by (simp add: run_Nil)
next
  case (Cons r rs)
  from Cons.IH[OF serve_nonneg[OF Cons.prems]] show ?case by (simp add: run_Cons)
qed

lemma run_row:
  "i < length (rows s) \<Longrightarrow>
     i < length (rows (run cfg is_url rs s)) \<and>
     clicks (rows (run cfg is_url rs s) ! i) =
       clicks (rows s ! i) +
       int (length (filter (is_visit (mapping_shortCode (rows s ! i))) rs)) \<and>
     mapping_shortCode (rows (run cfg is_url rs s) ! i) = mapping_shortCode (rows s ! i) \<and>
     originalUrl (rows (run cfg is_url rs s) ! i) = originalUrl (rows s ! i)"
proof (induction rs arbitrary: s)
  case Nil
  then show ?case by (simp add: run_Nil)
next
  case (Cons r rs)
  note step = serve_row[OF Cons.prems, of cfg is_url r]
  from step have "i < length (rows (serve cfg is_url r s))" by simp
  from Cons.IH[OF this] step show ?case by (simp add: run_Cons)
qed

lemma resolve_known:
  assumes "findByCode s c = Some m"
  shows "fst (resolve now c s) = Inr (originalUrl m) \<and>
         findByCode (snd (resolve now c s)) c =
           Some (m\<lparr>clicks := clicks m + 1, updatedAt := now\<rparr>)"
  using assms by (simp add: resolve_def findByCode_incrementClicks)

text \<open>
  C6. In every Store reached from the empty one, \<open>clicks\<close> of every mapping is
  non-negative, and requests keep it so. Over any run of requests the \<open>clicks\<close> of a
  mapping grows by exactly the number of redirects to its code in the run (each of them
  succeeds, the code being known), by one for a single such redirect and by nothing for
  any other request; its code and original URL stay. A redirect to a known code returns
  the original URL and leaves the mapping with one more click.
\<close>

theorem clicks_accounting:
  "(\<forall>m\<in>set (rows (run cfg is_url rs empty_store)). 0 \<le> clicks m) \<and>
   ((\<forall>m\<in>set (rows s). 0 \<le> clicks m) \<longrightarrow>
      (\<forall>m\<in>set (rows (run cfg is_url rs s)). 0 \<le> clicks m)) \<and>
   (i < length (rows s) \<longrightarrow>
      i < length (rows (serve cfg is_url r s)) \<and>
      clicks (rows (serve cfg is_url r s) ! i) =
        clicks (rows s ! i) + (if is_visit (mapping_shortCode (rows s ! i)) r then 1 else 0) \<and>
      i < length (rows (run cfg is_url rs s)) \<and>
      clicks (rows (run cfg is_url rs s) ! i) =
        clicks (rows s ! i) +
        int (length (filter (is_visit (mapping_shortCode (rows s ! i))) rs)) \<and>
      mapping_shortCode (rows (run cfg is_url rs s) ! i) = mapping_shortCode (rows s ! i) \<and>
      originalUrl (rows (run cfg is_url rs s) ! i) = originalUrl (rows s ! i)) \<and>
   (findByCode s c = Some m \<longrightarrow>
      fst (resolve now c s) = Inr (originalUrl m) \<and>
      findByCode (snd (resolve now c s)) c =
        Some (m\<lparr>clicks := clicks m + 1, updatedAt := now\<rparr>))"
proof -
  have "\<forall>m\<in>set (rows empty_store). 0 \<le> clicks m" by (simp add: empty_store_def)
  then have 1: "\<forall>m\<in>set (rows (run cfg is_url rs empty_store)). 0 \<le> clicks m"
    by (rule run_nonneg)
  show ?thesis
    using 1 run_nonneg[of s cfg is_url rs] serve_row[of i s cfg is_url r]
      run_row[of i s cfg is_url rs] resolve_known[of s c m now]
    by blast
qed

theorem clicks_accounting_witness:
  "clicks (rows (run \<lparr>base_origin = js ''https://sho.rt'', path_prefix = js ''/r/''\<rparr>
      (\<lambda>u. take 8 u = js ''https://'')
      [Visit 30 (js ''abc123''),
       Shorten 31 (\<lambda>i. js ''zzzzzz'') (js ''https://other.example'') None,
       Visit 32 (js ''nope''),
       Visit 33 (js ''abc123'')]
      \<lparr>rows = [\<lparr>mapping_id = 1, originalUrl = js ''https://example.com/path?q=1'',
                 mapping_shortCode = js ''abc123'', createdAt = 10, updatedAt = 20,
                 clicks = 7\<rparr>], next_id = 2\<rparr>) ! 0) = 9 \<and>
   fst (resolve 30 (js ''abc123'')
      \<lparr>rows = [\<lparr>mapping_id = 1, originalUrl = js ''https://example.com/path?q=1'',
                 mapping_shortCode = js ''abc123'', createdAt = 10, updatedAt = 20,
                 clicks = 7\<rparr>], next_id = 2\<rparr>) = Inr (js ''https://example.com/path?q=1'')"
proof -
  let ?m = "\<lparr>mapping_id = 1, originalUrl = js ''https://example.com/path?q=1'',
                 mapping_shortCode = js ''abc123'', createdAt = 10, updatedAt = 20,
                 clicks = 7\<rparr>"
  let ?s = "\<lparr>rows = [?m], next_id = 2\<rparr>"
  let ?rs = "[Visit 30 (js ''abc123''),
       Shorten 31 (\<lambda>i. js ''zzzzzz'') (js ''https://other.example'') None,
       Visit 32 (js ''nope''),
       Visit 33 (js ''abc123'')]"
  let ?cfg = "\<lparr>base_origin = js ''https://sho.rt'', path_prefix = js ''/r/''\<rparr>"
  let ?isu = "\<lambda>u::jsstring. take 8 u = js ''https://''"
  have i: "0 < length (rows ?s)" by simp
  have f: "findByCode ?s (js ''abc123'') = Some ?m" by (simp add: findByCode_def)
  have n: "int (length (filter (is_visit (mapping_shortCode (rows ?s ! 0))) ?rs)) = 2"
    by (simp add: js_def)
  note t = clicks_accounting[of ?cfg ?isu ?rs ?s 0 "Visit 30 (js ''abc123'')" "js ''abc123''" ?m 30]
  from t i have "clicks (rows (run ?cfg ?isu ?rs ?s) ! 0) =
        clicks (rows ?s ! 0) +
        int (length (filter (is_visit (mapping_shortCode (rows ?s ! 0))) ?rs))"
    by blast
  then have a: "clicks (rows (run ?cfg ?isu ?rs ?s) ! 0) = 9" unfolding n by simp
  from t f have b: "fst (resolve 30 (js ''abc123'') ?s) = Inr (js ''https://example.com/path?q=1'')"
    by simp
  show ?thesis using a b by simp
qed

end
